theory Spec2Isabelle
  imports Main "HOL-Library.Word" "HOL-Library.Sublist"
begin

section \<open>JavaScript strings\<close>

text \<open>
  A JavaScript string is a finite sequence of 16-bit code units; \<open>length\<close>, \<open>indexOf\<close>,
  \<open>replace\<close>, \<open>split\<close> and \<open>trim\<close> all work on code units. The literals of the
  source are ASCII and are written through \<open>js\<close>.
\<close>

type_synonym code_unit = "16 word"
type_synonym jsstring = "code_unit list"

definition js :: "string \<Rightarrow> jsstring" where
  "js s = map of_char s"

text \<open>\<open>s.startsWith(p)\<close>, the comparison made at each position of a string search.\<close>

fun startsWith :: "'a list \<Rightarrow> 'a list \<Rightarrow> bool" where
  "startsWith s [] = True"
| "startsWith [] (a # p) = False"
| "startsWith (b # s) (a # p) = (a = b \<and> startsWith s p)"

text \<open>
  \<open>s.indexOf(p)\<close>: the least index at which \<open>p\<close> occurs in \<open>s\<close>, \<open>None\<close> for the
  \<open>-1\<close> of JavaScript. The empty pattern is found at index 0.
\<close>

fun indexOf :: "'a list \<Rightarrow> 'a list \<Rightarrow> nat option" where
  "indexOf [] p = (if p = [] then Some 0 else None)"
| "indexOf (c # s) p =
     (if startsWith (c # s) p then Some 0 else map_option Suc (indexOf s p))"

text \<open>
  The abstract operation GetSubstitution of ECMAScript, for a search value that is a
  string (no capture groups, no named groups): in the replacement text \<open>$$\<close> stands for a
  dollar sign, \<open>$&\<close> for the matched text, \<open>$`\<close> for the part of the string before the
  match and \<open>$'\<close> for the part after it; a dollar sign followed by anything else
  (digits and \<open>$<\<close> included, as there are no groups) stands for itself.
\<close>

fun getSubstitution :: "jsstring \<Rightarrow> jsstring \<Rightarrow> nat \<Rightarrow> jsstring \<Rightarrow> jsstring" where
  "getSubstitution matched str position (c # d # r) =
     (if c = of_char CHR ''$'' then
        if d = of_char CHR ''$'' then of_char CHR ''$'' # getSubstitution matched str position r
        else if d = of_char CHR ''`'' then take position str @ getSubstitution matched str position r
        else if d = of_char CHR ''&'' then matched @ getSubstitution matched str position r
        else if d = of_char (CHR 0x27) then
          drop (position + length matched) str @ getSubstitution matched str position r
        else c # getSubstitution matched str position (d # r)
      else c # getSubstitution matched str position (d # r))"
| "getSubstitution matched str position r = r"

text \<open>
  \<open>s.replace(p, v)\<close> with a string \<open>p\<close> and a string \<open>v\<close>: the FIRST occurrence of
  \<open>p\<close> is replaced by the substitution computed from \<open>v\<close>; a string without \<open>p\<close> is
  returned as it is. It never throws.
\<close>

definition replace :: "jsstring \<Rightarrow> jsstring \<Rightarrow> jsstring \<Rightarrow> jsstring" where
  "replace s p v =
     (case indexOf s p of
        None \<Rightarrow> s
      | Some pos \<Rightarrow>
          take pos s @ getSubstitution p s pos v @ drop (pos + length p) s)"

text \<open>
  The number of non-overlapping occurrences of \<open>p\<close> in \<open>s\<close>, scanning from the left
  (what \<open>s.split(p).length - 1\<close> counts for a non-empty \<open>p\<close>); used to state how many
  placeholders a template holds.
\<close>

fun occurrences :: "'a list \<Rightarrow> 'a list \<Rightarrow> nat" where
  "occurrences [] p = 0"
| "occurrences (c # s) p =
     (if p \<noteq> [] \<and> startsWith (c # s) p
      then Suc (occurrences (drop (length p) (c # s)) p)
      else occurrences s p)"

section \<open>Template resolution\<close>

text \<open>
  The source resolves a template by chaining \<open>.replace(placeholder, value)\<close> calls, one per
  binding, in the order written (Step4Analysis: \<open>[KEYWORD]\<close> then \<open>[CONTENT]\<close>; Step3Review:
  \<open>[CONTENT]\<close> alone). \<open>resolve\<close> is that chain for a list of bindings.
\<close>

definition resolve :: "jsstring \<Rightarrow> (jsstring \<times> jsstring) list \<Rightarrow> jsstring" where
  "resolve template bindings = foldl (\<lambda>t (p, v). replace t p v) template bindings"

text \<open>\<open>s.includes(q)\<close>: \<open>q\<close> occurs somewhere in \<open>s\<close>.\<close>

definition contains :: "'a list \<Rightarrow> 'a list \<Rightarrow> bool" where
  "contains s q = (indexOf s q \<noteq> None)"

text \<open>
  The placeholders of the source are bracketed names: \<open>[KEYWORD]\<close>, \<open>[keyword]\<close>,
  \<open>[CONTENT]\<close>. A placeholder token is an opening bracket, a name free of brackets, and a
  closing bracket.
\<close>

definition placeholder_token :: "jsstring \<Rightarrow> bool" where
  "placeholder_token q =
     (2 \<le> length q \<and> hd q = of_char CHR ''['' \<and> last q = of_char CHR '']'' \<and>
      of_char CHR ''['' \<notin> set (butlast (tl q)) \<and> of_char CHR '']'' \<notin> set (butlast (tl q)))"

section \<open>Search results and the two research formatters\<close>

text \<open>\<open>SearchResult\<close> of \<open>@/types/search\<close>, as the steps use it; \<open>content\<close> is optional.\<close>

record SearchResult =
  title :: jsstring
  url :: jsstring
  snippet :: jsstring
  content :: "jsstring option"
  searchKeyword :: jsstring

text \<open>\<open>xs.join(sep)\<close>.\<close>

fun join :: "jsstring \<Rightarrow> jsstring list \<Rightarrow> jsstring" where
  "join sep [] = []"
| "join sep [x] = x"
| "join sep (x # y # ys) = x @ sep @ join sep (y # ys)"

text \<open>
  \<open>s.split(/[...]/)\<close> for a regular expression that is one character class: the pieces
  between the matching code units, empty pieces included; the empty string gives one
  empty piece.
\<close>

fun split_regex :: "(code_unit \<Rightarrow> bool) \<Rightarrow> jsstring \<Rightarrow> jsstring list" where
  "split_regex sep [] = [[]]"
| "split_regex sep (c # s) =
     (if sep c then [] # split_regex sep s
      else (case split_regex sep s of
              [] \<Rightarrow> [[c]]
            | w # ws \<Rightarrow> (c # w) # ws))"

text \<open>The class \<open>[-\<dots>:]\<close> of title separators: hyphen, en dash U+2013, em dash U+2014, colon.\<close>

definition title_separator :: "code_unit \<Rightarrow> bool" where
  "title_separator c = (c = of_char CHR ''-'' \<or> c = 0x2013 \<or> c = 0x2014 \<or> c = of_char CHR '':'')"

text \<open>The class \<open>[.!?]\<close> of sentence ends.\<close>

definition sentence_end :: "code_unit \<Rightarrow> bool" where
  "sentence_end c = (c = of_char CHR ''.'' \<or> c = of_char CHR ''!'' \<or> c = of_char CHR ''?'')"

text \<open>The code units \<open>trim\<close> removes: WhiteSpace and LineTerminator of ECMAScript.\<close>

definition white_space :: "code_unit \<Rightarrow> bool" where
  "white_space c =
     (c = 0x0009 \<or> c = 0x000A \<or> c = 0x000B \<or> c = 0x000C \<or> c = 0x000D \<or> c = 0x0020 \<or>
      c = 0x00A0 \<or> c = 0x1680 \<or> (0x2000 \<le> c \<and> c \<le> 0x200A) \<or> c = 0x2028 \<or> c = 0x2029 \<or>
      c = 0x202F \<or> c = 0x205F \<or> c = 0x3000 \<or> c = 0xFEFF)"

definition trim :: "jsstring \<Rightarrow> jsstring" where
  "trim s = rev (dropWhile white_space (rev (dropWhile white_space s)))"

text \<open>\<open>s.replace(/\.\.\./g, ".")\<close>: every run of three dots, from the left, becomes one dot.\<close>

fun replace_ellipsis :: "jsstring \<Rightarrow> jsstring" where
  "replace_ellipsis (a # b # c # s) =
     (if a = of_char CHR ''.'' \<and> b = of_char CHR ''.'' \<and> c = of_char CHR ''.''
      then of_char CHR ''.'' # replace_ellipsis s
      else a # replace_ellipsis (b # c # s))"
| "replace_ellipsis s = s"

subsection \<open>Step3Review.tsx: the heuristic formatter\<close>

definition titlePoints :: "SearchResult \<Rightarrow> jsstring list" where
  "titlePoints result =
     filter (\<lambda>p. length p > 10) (map trim (split_regex title_separator (title result)))"

definition cleanSnippet :: "SearchResult \<Rightarrow> jsstring" where
  "cleanSnippet result =
     join (js ''. '')
       (filter (\<lambda>s. length s > 0)
          (map trim (split_regex sentence_end (replace_ellipsis (snippet result)))))"

definition review_block :: "SearchResult \<Rightarrow> jsstring" where
  "review_block result =
     js ''# '' @ title result @ js ''\<newline>\<newline>Source: '' @ url result @
     js ''\<newline>\<newline>Key Points:\<newline>'' @
     join (js ''\<newline>'') (map (\<lambda>p. js ''- '' @ p) (titlePoints result)) @
     js ''\<newline>\<newline>Summary:\<newline>'' @ cleanSnippet result @
     js ''\<newline>\<newline>---\<newline>''"

definition review_content :: "SearchResult list \<Rightarrow> jsstring" where
  "review_content results = join (js ''\<newline>'') (map review_block results)"

subsection \<open>The Step3Review variant with a preview: the markdown formatter\<close>

text \<open>
  \<open>htmlToMarkdown\<close> is imported from \<open>@/lib/search\<close>, which is not part of the sources
  at hand; it is a parameter, \<open>None\<close> when the import is not a function (the source
  tests \<open>typeof htmlToMarkdown === "function"\<close>).
\<close>

definition markdownContent :: "(jsstring \<Rightarrow> jsstring) option \<Rightarrow> SearchResult \<Rightarrow> jsstring" where
  "markdownContent htmlToMarkdown result =
     (case content result of
        Some c \<Rightarrow>
          if c \<noteq> [] then (case htmlToMarkdown of Some f \<Rightarrow> f c | None \<Rightarrow> c)
          else if snippet result \<noteq> [] then snippet result else js ''No content available''
      | None \<Rightarrow>
          if snippet result \<noteq> [] then snippet result else js ''No content available'')"

definition preview_block :: "(jsstring \<Rightarrow> jsstring) option \<Rightarrow> SearchResult \<Rightarrow> jsstring" where
  "preview_block htmlToMarkdown result =
     js ''# '' @ title result @ js ''\<newline>\<newline>Source: '' @ url result @
     js ''\<newline>\<newline>## Summary\<newline>'' @
     (if snippet result \<noteq> [] then snippet result else js ''No summary available'') @
     js ''\<newline>\<newline>## Full Content\<newline>'' @ markdownContent htmlToMarkdown result @
     js ''\<newline>\<newline>---\<newline>''"

definition preview_content :: "(jsstring \<Rightarrow> jsstring) option \<Rightarrow> SearchResult list \<Rightarrow> jsstring" where
  "preview_content htmlToMarkdown results =
     join (js ''\<newline>'') (map (preview_block htmlToMarkdown) results)"

text \<open>\<open>results[0]?.searchKeyword || ""\<close>.\<close>

definition keyword_of :: "SearchResult list \<Rightarrow> jsstring" where
  "keyword_of results = (case results of [] \<Rightarrow> [] | r # _ \<Rightarrow> searchKeyword r)"

section \<open>Handlers, their effects and the parent's callbacks\<close>

text \<open>
  A handler of a React component reads the state of the render it was created in and
  writes through the setters; the model passes the component state in and returns the
  state after the handler has run to its end. What a handler does beyond its own state
  is explicit: \<open>console.error\<close> calls are appended to a console, and the parent's
  \<open>onNext\<close> is a parameter acting on the parent's state \<open>'w\<close> (the wizard that owns
  the active step), \<open>Inl\<close> when it throws.
\<close>

datatype js_error = Thrown jsstring

type_synonym console = "(jsstring \<times> js_error) list"

text \<open>
  How a run of a step's forward handler ends: at the guard \<open>if (!results.length) return;\<close>
  (the condition the specification calls MissingPrerequisite) or through its
  \<open>try\<close> block.
\<close>

datatype exit = MissingPrerequisite | Completed

subsection \<open>Step3Review.tsx\<close>

definition DEFAULT_PROMPT_Review :: jsstring where
  \<open>DEFAULT_PROMPT_Review = js ''This is research content about articles on [keyword]: [CONTENT]\<newline>\<newline>Please analyze and provide:\<newline>1. Common article structures\<newline>2. Main and secondary sections\<newline>3. Key points mentioned\<newline>4. Unique perspectives from each article\<newline>5. Strengths/weaknesses of each article\<newline>6. Opportunities for differentiation\<newline>7. Content type (choose 1): Pillar Content/Supporting Content/Informational Content/Commercial Content/Engagement Content/News/Updates''\<close>

record Step3State =
  prompt :: jsstring
  contentType :: jsstring
  isProcessing :: bool


text \<open>The text area's \<open>onChange\<close>.\<close>

definition setPrompt :: "jsstring \<Rightarrow> 'a Step3State_scheme \<Rightarrow> 'a Step3State_scheme" where
  "setPrompt v st = st\<lparr>prompt := v\<rparr>"

definition Step3Review_handleProcess ::
  "(jsstring \<Rightarrow> jsstring \<Rightarrow> jsstring \<Rightarrow> 'w \<Rightarrow> js_error + 'w) \<Rightarrow> SearchResult list \<Rightarrow>
   Step3State \<times> console \<times> 'w \<Rightarrow> exit \<times> Step3State \<times> console \<times> 'w" where
  "Step3Review_handleProcess onNext results = (\<lambda>(st, con, w).
     if results = [] then (MissingPrerequisite, st, con, w)
     else
       let st1 = st\<lparr>isProcessing := True\<rparr>;
           research = review_content results;
           keyword = keyword_of results;
           researchPrompt = replace (prompt st) (js ''[CONTENT]'') research
       in case onNext researchPrompt keyword research w of
            Inr w' \<Rightarrow> (Completed, st1\<lparr>isProcessing := False\<rparr>, con, w')
          | Inl error \<Rightarrow>
              (Completed, st1\<lparr>isProcessing := False\<rparr>,
               con @ [(js ''Error processing content:'', error)], w))"

text \<open>The \<open>disabled\<close> attribute of the button that runs \<open>handleProcess\<close>.\<close>

definition Step3Review_disabled :: "'a Step3State_scheme \<Rightarrow> SearchResult list \<Rightarrow> bool" where
  "Step3Review_disabled st results = (isProcessing st \<or> results = [])"


subsection \<open>The Step3Review variant with a preview\<close>

record Step3PreviewState = Step3State +
  processedContent :: jsstring
  showResults :: bool
  finalKeyword :: jsstring
  finalPrompt :: jsstring

text \<open>The effect on \<open>[keyword]\<close>: it runs after mounting and whenever the keyword changes.\<close>

definition keyword_effect :: "SearchResult list \<Rightarrow> Step3PreviewState \<Rightarrow> Step3PreviewState" where
  "keyword_effect results st =
     (if keyword_of results \<noteq> []
      then st\<lparr>prompt := replace DEFAULT_PROMPT_Review (js ''[keyword]'') (keyword_of results)\<rparr>
      else st\<lparr>prompt := DEFAULT_PROMPT_Review\<rparr>)"

definition Step3Preview_mount :: "SearchResult list \<Rightarrow> Step3PreviewState" where
  "Step3Preview_mount results =
     keyword_effect results
       \<lparr>prompt = [], contentType = js ''pillar'', isProcessing = False,
        processedContent = [], showResults = False, finalKeyword = [], finalPrompt = []\<rparr>"

text \<open>\<open>htmlToMarkdown\<close> is taken to return a string; the handler then has nothing to catch.\<close>

definition Step3Preview_handleProcess ::
  "(jsstring \<Rightarrow> jsstring) option \<Rightarrow> SearchResult list \<Rightarrow>
   Step3PreviewState \<times> console \<Rightarrow> exit \<times> Step3PreviewState \<times> console" where
  "Step3Preview_handleProcess htmlToMarkdown results = (\<lambda>(st, con).
     if results = [] then (MissingPrerequisite, st, con)
     else
       let st1 = st\<lparr>isProcessing := True\<rparr>;
           research = preview_content htmlToMarkdown results;
           generatedPrompt = replace (prompt st) (js ''[CONTENT]'') research;
           st2 = st1\<lparr>processedContent := research, finalKeyword := keyword_of results,
                     finalPrompt := generatedPrompt, showResults := True\<rparr>
       in (Completed, st2\<lparr>isProcessing := False\<rparr>, con))"

definition Step3Preview_handleContinue ::
  "(jsstring \<Rightarrow> jsstring \<Rightarrow> jsstring \<Rightarrow> 'w \<Rightarrow> js_error + 'w) \<Rightarrow> Step3PreviewState \<Rightarrow> 'w \<Rightarrow>
   js_error + 'w" where
  "Step3Preview_handleContinue onNext st w =
     onNext (finalPrompt st) (finalKeyword st) (processedContent st) w"


subsection \<open>Step4Analysis.tsx\<close>

definition DEFAULT_PROMPT_Analysis :: jsstring where
  \<open>DEFAULT_PROMPT_Analysis = js ''Based on the following research content about "[KEYWORD]", analyze the characteristics of the content writers. Detail the writing style to guide others in writing similarly on this topic.\<newline>\<newline>Include analysis of:\<newline>1. Tone and voice (formal, conversational, technical)\<newline>2. Sentence structure and length\<newline>3. Vocabulary level and specialized terminology usage\<newline>4. Paragraph organization and flow\<newline>5. Use of questions, commands, or other engagement techniques\<newline>6. Content formatting patterns (lists, headers, quotes)\<newline>7. Overall readability and target audience level\<newline>\<newline>Research content:\<newline>[CONTENT]''\<close>

definition initializedPrompt :: "jsstring \<Rightarrow> jsstring \<Rightarrow> jsstring" where
  "initializedPrompt keyword researchContent =
     replace (replace DEFAULT_PROMPT_Analysis (js ''[KEYWORD]'') keyword)
       (js ''[CONTENT]'') researchContent"

text \<open>
  The two fixed parts of \<open>DEFAULT_PROMPT\<close> of the Analysis step: the text before
  \<open>[KEYWORD]\<close>, and the text between \<open>[KEYWORD]\<close> and the final \<open>[CONTENT]\<close>.
\<close>

definition prompt_head :: jsstring where
  \<open>prompt_head = js ''Based on the following research content about "''\<close>

definition prompt_middle :: jsstring where
  \<open>prompt_middle = js ''", analyze the characteristics of the content writers. Detail the writing style to guide others in writing similarly on this topic.\<newline>\<newline>Include analysis of:\<newline>1. Tone and voice (formal, conversational, technical)\<newline>2. Sentence structure and length\<newline>3. Vocabulary level and specialized terminology usage\<newline>4. Paragraph organization and flow\<newline>5. Use of questions, commands, or other engagement techniques\<newline>6. Content formatting patterns (lists, headers, quotes)\<newline>7. Overall readability and target audience level\<newline>\<newline>Research content:\<newline>''\<close>

record Step4State =
  selectedModel :: jsstring
  promptA :: jsstring
  contentPreviewExpanded :: bool
  analysisResult :: jsstring
  isProcessingA :: bool
  isGenerating :: bool
  copySuccess :: bool
  showResultsA :: bool

definition Step4Analysis_mount :: "jsstring \<Rightarrow> jsstring \<Rightarrow> Step4State" where
  "Step4Analysis_mount keyword researchContent =
     \<lparr>selectedModel = js ''gemini-1.5-pro'',
      promptA = initializedPrompt keyword researchContent,
      contentPreviewExpanded = False, analysisResult = [], isProcessingA = False,
      isGenerating = False, copySuccess = False, showResultsA = False\<rparr>"

definition PLACEHOLDER_RESULT :: jsstring where
  "PLACEHOLDER_RESULT = js ''The AI analysis will appear here after generation is complete.''"

text \<open>
  \<open>generateStyleAnalysis\<close> awaits one call inside its \<open>try\<close> block (in the source a
  two-second timer that stands for the request to the AI service). \<open>api\<close> is the outcome
  of that awaited call: \<open>None\<close> when it resolves, \<open>Some e\<close> when it rejects with \<open>e\<close>.
  The function catches the rejection itself, so it always returns normally.
\<close>

definition generateStyleAnalysis ::
  "js_error option \<Rightarrow> Step4State \<times> console \<Rightarrow> Step4State \<times> console" where
  "generateStyleAnalysis api = (\<lambda>(st, con).
     let st1 = st\<lparr>isGenerating := True\<rparr>
     in case api of
          None \<Rightarrow>
            (st1\<lparr>analysisResult := PLACEHOLDER_RESULT, showResultsA := True,
                 isGenerating := False\<rparr>, con)
        | Some error \<Rightarrow>
            (st1\<lparr>isGenerating := False\<rparr>,
             con @ [(js ''Error generating analysis:'', error)]))"

text \<open>
  \<open>handleProcess\<close> of the Analysis step. \<open>analysisResult\<close> and \<open>isGenerating\<close> are the
  constants of the render the handler belongs to: the test and the argument of
  \<open>onNext\<close> both read \<open>st\<close>, the state the handler started from, whatever the setters
  have stored since.
\<close>

definition Step4Analysis_handleProcess ::
  "js_error option \<Rightarrow> (jsstring \<Rightarrow> 'w \<Rightarrow> js_error + 'w) \<Rightarrow>
   Step4State \<times> console \<times> 'w \<Rightarrow> Step4State \<times> console \<times> 'w" where
  "Step4Analysis_handleProcess api onNext = (\<lambda>(st, con, w).
     let st1 = st\<lparr>isProcessingA := True\<rparr>;
         (st2, con2) =
           (if analysisResult st = [] \<and> \<not> isGenerating st
            then generateStyleAnalysis api (st1, con)
            else (st1, con))
     in case onNext (analysisResult st) w of
          Inr w' \<Rightarrow> (st2\<lparr>isProcessingA := False\<rparr>, con2, w')
        | Inl error \<Rightarrow>
            (st2\<lparr>isProcessingA := False\<rparr>,
             con2 @ [(js ''Error processing content:'', error)], w))"

text \<open>A parent that only records what \<open>onNext\<close> hands it, in order.\<close>

definition record_analysis :: "jsstring \<Rightarrow> jsstring list \<Rightarrow> js_error + jsstring list" where
  "record_analysis analysis w = Inr (w @ [analysis])"

definition record_review ::
  "jsstring \<Rightarrow> jsstring \<Rightarrow> jsstring \<Rightarrow> (jsstring \<times> jsstring \<times> jsstring) list \<Rightarrow>
   js_error + (jsstring \<times> jsstring \<times> jsstring) list" where
  "record_review analysis keyword research w = Inr (w @ [(analysis, keyword, research)])"

section \<open>The wizard controller\<close>

text \<open>
  Modelled from the spec: the WizardController (the component ContentWizard, which owns
  the active step, receives \<open>onNext\<close> and \<open>onBack\<close> from the steps and decides which
  step is shown) is not among the sources at hand. Every definition of this section
  follows sections 3 and 4.3 of the specification, not code.
\<close>

text \<open>
  Modelled from the spec: the states of the controller,
  \<open>Config \<rightarrow> Search \<rightarrow> Review \<rightarrow> Analysis \<rightarrow> Done\<close> (section 4.3).
\<close>

datatype step = Config | Search | Review | Analysis | Done

text \<open>
  Modelled from the spec: the accumulated context
  \<open>{ modelConfig, keyword, searchResults, researchText, analysisPrompt, analysisResult }\<close>
  (section 3).
\<close>

record WizardContext =
  ctx_modelConfig :: jsstring
  ctx_keyword :: jsstring
  ctx_searchResults :: "SearchResult list"
  ctx_researchText :: jsstring
  ctx_analysisPrompt :: jsstring
  ctx_analysisResult :: jsstring

text \<open>
  Modelled from the spec: the controller's state, the pointer to the active step and the
  context it alone owns (sections 3 and 4.3).
\<close>

record Wizard =
  active :: step
  ctx :: WizardContext

text \<open>
  Modelled from the spec: the output a step hands forward. The arguments are those of the
  \<open>onNext\<close> callbacks in the source: the results of the search; prompt, keyword and
  research text from the Review step; the analysis from the Analysis step.
\<close>

datatype step_output =
    ConfigOutput jsstring
  | SearchOutput "SearchResult list"
  | ReviewOutput jsstring jsstring jsstring
  | AnalysisOutput jsstring


text \<open>Modelled from the spec: the next state of the linear sequence.\<close>

fun successor :: "step \<Rightarrow> step" where
  "successor Config = Search"
| "successor Search = Review"
| "successor Review = Analysis"
| "successor Analysis = Done"
| "successor Done = Done"

text \<open>Modelled from the spec: merging the output of the active step into the context.\<close>

fun merge :: "step_output \<Rightarrow> WizardContext \<Rightarrow> WizardContext" where
  "merge (ConfigOutput m) c = c\<lparr>ctx_modelConfig := m\<rparr>"
| "merge (SearchOutput rs) c = c\<lparr>ctx_searchResults := rs\<rparr>"
| "merge (ReviewOutput a k r) c =
     c\<lparr>ctx_analysisPrompt := a, ctx_keyword := k, ctx_researchText := r\<rparr>"
| "merge (AnalysisOutput t) c = c\<lparr>ctx_analysisResult := t\<rparr>"

text \<open>
  Modelled from the spec: the upstream data the next step needs, given the active step
  and its output. The Review step needs a non-empty sequence of search results; the
  output must be the active step's own.
\<close>

fun prerequisite :: "step \<Rightarrow> step_output \<Rightarrow> WizardContext \<Rightarrow> bool" where
  "prerequisite Config (ConfigOutput m) c = True"
| "prerequisite Search (SearchOutput rs) c = (rs \<noteq> [])"
| "prerequisite Review (ReviewOutput a k r) c = (ctx_searchResults c \<noteq> [])"
| "prerequisite Analysis (AnalysisOutput t) c = True"
| "prerequisite s out c = False"

text \<open>
  Modelled from the spec: \<open>advance(step, output)\<close>. On success the output is merged into
  the context and the pointer moves forward; otherwise the transition is refused and
  nothing changes.
\<close>

definition advance :: "step_output \<Rightarrow> Wizard \<Rightarrow> exit \<times> Wizard" where
  "advance out w =
     (if prerequisite (active w) out (ctx w)
      then (Completed, w\<lparr>active := successor (active w), ctx := merge out (ctx w)\<rparr>)
      else (MissingPrerequisite, w))"


section \<open>Observations and example data\<close>

text \<open>
  What a run of the Review step's handler handed to the parent, and the research content
  among the three arguments of \<open>onNext\<close>.
\<close>

definition forwarded :: "exit \<times> Step3State \<times> console \<times> 'w \<Rightarrow> 'w" where
  "forwarded r = snd (snd (snd r))"

definition research_of :: "jsstring \<times> jsstring \<times> jsstring \<Rightarrow> jsstring" where
  "research_of args = snd (snd args)"

text \<open>
  A search result with neither content nor snippet, one with both, one found for another
  keyword, and a wizard that has reached the Search step.
\<close>

definition example_result :: SearchResult where
  "example_result = \<lparr>title = js ''A'', url = js ''u1'', snippet = [], content = None,
     searchKeyword = js ''kw''\<rparr>"

definition example_page :: SearchResult where
  "example_page = \<lparr>title = js ''B'', url = js ''u2'', snippet = js ''s2'',
     content = Some (js ''<p>body</p>''), searchKeyword = js ''kw''\<rparr>"


definition wizard_at_search :: Wizard where
  "wizard_at_search =
     \<lparr>active = Search,
      ctx = \<lparr>ctx_modelConfig = js ''gemini-1.5-pro'', ctx_keyword = [], ctx_searchResults = [],
             ctx_researchText = [], ctx_analysisPrompt = [], ctx_analysisResult = []\<rparr>\<rparr>"

section \<open>Properties of string search and replacement\<close>

lemma startsWith_prefix: "startsWith s p = prefix p s"
  by (induction s p rule: startsWith.induct) auto

lemma indexOf_None_iff: "(indexOf s p = None) = (\<not> sublist p s)"
  by (induction s) (auto simp: startsWith_prefix sublist_Cons_right)

lemma indexOf_SomeD:
  "indexOf s p = Some i \<Longrightarrow> i + length p \<le> length s \<and> take (length p) (drop i s) = p"
proof (induction s arbitrary: i)
  case Nil
  then show ?case by (auto split: if_splits)
next
  case (Cons c s)
  show ?case
  proof (cases "startsWith (c # s) p")
    case True
    with Cons.prems have "i = 0" by simp
    moreover from True obtain z where "c # s = p @ z" by (auto simp: startsWith_prefix prefix_def)
    ultimately show ?thesis by (metis append_eq_conv_conj drop0 length_append le_add1 add_0)
  next
    case False
    with Cons.prems obtain j where "indexOf s p = Some j" "i = Suc j" by auto
    with Cons.IH [of j] show ?thesis by simp
  qed
qed

lemma indexOf_first:
  "indexOf s p = Some i \<Longrightarrow> j < i \<Longrightarrow> \<not> startsWith (drop j s) p"
proof (induction s arbitrary: i j)
  case Nil
  then show ?case by (auto split: if_splits)
next
  case (Cons c s)
  from Cons.prems have nf: "\<not> startsWith (c # s) p" by (auto split: if_splits)
  with Cons.prems obtain k where k: "indexOf s p = Some k" "i = Suc k" by auto
  show ?case
  proof (cases j)
    case 0
    with nf show ?thesis by simp
  next
    case (Suc j')
    with Cons.prems k have "j' < k" by simp
    with Cons.IH [OF k(1)] Suc show ?thesis by simp
  qed
qed

lemma indexOf_split:
  assumes "indexOf s p = Some i"
  shows "s = take i s @ p @ drop (i + length p) s"
proof -
  from indexOf_SomeD [OF assms] have "take (length p) (drop i s) = p" by simp
  then have "drop i s = p @ drop (length p) (drop i s)" by (metis append_take_drop_id)
  then have "s = take i s @ p @ drop (length p) (drop i s)" by (metis append_take_drop_id)
  then show ?thesis by (simp add: add.commute)
qed

lemma getSubstitution_plain:
  "of_char CHR ''$'' \<notin> set v \<Longrightarrow> getSubstitution m s pos v = v"
  by (induction m s pos v rule: getSubstitution.induct) auto

lemma resolve_Nil: "resolve t [] = t" by (simp add: resolve_def)
lemma resolve_Cons: "resolve t ((p, v) # bs) = resolve (replace t p v) bs" by (simp add: resolve_def)

lemma contains_sublist: "contains s q = sublist q s"
  by (simp add: contains_def indexOf_None_iff)

lemma LB_neq_RB: "(of_char CHR ''['' :: code_unit) \<noteq> of_char CHR '']''"
  by simp

lemma token_nth:
  assumes "placeholder_token q"
  shows "2 \<le> length q" "q ! 0 = of_char CHR ''[''" "q ! (length q - 1) = of_char CHR '']''"
    "\<And>k. 0 < k \<Longrightarrow> k < length q - 1 \<Longrightarrow> q ! k \<noteq> of_char CHR ''['' \<and> q ! k \<noteq> of_char CHR '']''"
proof -
  from assms show len: "2 \<le> length q" by (simp add: placeholder_token_def)
  then have ne: "q \<noteq> []" by auto
  from assms ne show "q ! 0 = of_char CHR ''[''" by (simp add: placeholder_token_def hd_conv_nth)
  from assms ne show "q ! (length q - 1) = of_char CHR '']''"
    by (simp add: placeholder_token_def last_conv_nth)
  fix k assume k: "0 < k" "k < length q - 1"
  have "butlast (tl q) ! (k - 1) = q ! k"
    using k len by (simp add: nth_butlast nth_tl)
  moreover have "k - 1 < length (butlast (tl q))" using k len by simp
  ultimately have "q ! k \<in> set (butlast (tl q))" by (metis nth_mem)
  with assms show "q ! k \<noteq> of_char CHR ''['' \<and> q ! k \<noteq> of_char CHR '']''"
    by (auto simp: placeholder_token_def)
qed

lemma nth_mid: "k < length q \<Longrightarrow> (a @ q @ b) ! (length a + k) = q ! k"
  by (simp add: nth_append)

lemma token_overlap_left:
  assumes q: "placeholder_token q" and p: "placeholder_token p"
    and eq: "a @ q @ b = c @ p @ d"
    and lt: "length a < length c" and ov: "length c < length a + length q"
  shows False
proof -
  define k where "k = length c - length a"
  have k: "0 < k" "k < length q" "length c = length a + k" using lt ov by (auto simp: k_def)
  have "q ! k = (a @ q @ b) ! (length a + k)" using k by (simp add: nth_append)
  also have "\<dots> = (c @ p @ d) ! (length c + 0)" using eq k by simp
  also have "\<dots> = p ! 0" using token_nth(1) [OF p] by (subst nth_mid) auto
  finally have qk: "q ! k = of_char CHR ''[''" using token_nth(2) [OF p] by simp
  show False
  proof (cases "k < length q - 1")
    case True
    with token_nth(4) [OF q k(1)] qk show False by simp
  next
    case False
    with k have "k = length q - 1" by simp
    with token_nth(3) [OF q] qk show False by simp
  qed
qed

lemma token_same_start:
  assumes q: "placeholder_token q" and p: "placeholder_token p"
    and eq: "a @ q @ b = c @ p @ d"
    and same: "length a = length c" and lt: "length q < length p"
  shows False
proof -
  have len: "2 \<le> length q" by (rule token_nth(1) [OF q])
  define k where "k = length q - 1"
  have k: "0 < k" "k < length q" "k < length p - 1" using len lt by (auto simp: k_def)
  have "q ! k = (a @ q @ b) ! (length a + k)" using k by (simp add: nth_append)
  also have "\<dots> = (c @ p @ d) ! (length c + k)" using eq same by simp
  also have "\<dots> = p ! k" using k by (subst nth_mid) auto
  finally have "p ! k = of_char CHR '']''" using token_nth(3) [OF q] by (simp add: k_def)
  with token_nth(4) [OF p k(1) k(3)] show False by simp
qed

lemma token_no_overlap:
  assumes q: "placeholder_token q" and p: "placeholder_token p" and ne: "p \<noteq> q"
    and eq: "a @ q @ b = c @ p @ d"
  shows "length a + length q \<le> length c \<or> length c + length p \<le> length a"
proof (rule ccontr)
  assume "\<not> ?thesis"
  then have ov: "length c < length a + length q" "length a < length c + length p" by auto
  consider "length a < length c" | "length c < length a" | "length a = length c" by linarith
  then show False
  proof cases
    case 1
    from token_overlap_left [OF q p eq 1 ov(1)] show False .
  next
    case 2
    from token_overlap_left [OF p q eq [symmetric] 2 ov(2)] show False .
  next
    case 3
    then have ac: "a = c" using eq by (metis append_eq_append_conv)
    with eq have qp: "q @ b = p @ d" by simp
    consider "length q < length p" | "length p < length q" | "length q = length p" by linarith
    then show False
    proof cases
      case 1
      from token_same_start [OF q p eq 3 1] show False .
    next
      case 2
      from token_same_start [OF p q eq [symmetric] 3 [symmetric] 2] show False .
    next
      case 3
      with qp have "q = p" by (metis append_eq_append_conv)
      with ne show False by simp
    qed
  qed
qed

lemma sublist_survives:
  assumes q: "placeholder_token q" and p: "placeholder_token p" and ne: "p \<noteq> q"
    and sub: "sublist q (c @ p @ d)"
  shows "sublist q c \<or> sublist q d"
proof -
  from sub obtain a b where eq: "c @ p @ d = a @ q @ b" by (auto simp: sublist_def)
  from token_no_overlap [OF q p ne eq [symmetric]]
  show ?thesis
  proof
    assume le: "length a + length q \<le> length c"
    have "take (length a + length q) (a @ q @ b) = a @ q" by simp
    then have "take (length a + length q) (c @ p @ d) = a @ q" using eq by simp
    then have "take (length a + length q) c = a @ q" using le by simp
    then have "c = a @ q @ drop (length a + length q) c" by (metis append.assoc append_take_drop_id)
    then show ?thesis by (metis sublist_appendI)
  next
    assume le: "length c + length p \<le> length a"
    have "drop (length c + length p) (c @ p @ d) = d" by simp
    then have "d = drop (length c + length p) (a @ q @ b)" using eq by simp
    also have "\<dots> = drop (length c + length p) a @ q @ b" using le by simp
    finally show ?thesis by (metis sublist_appendI)
  qed
qed

lemma replace_keeps_token:
  assumes q: "placeholder_token q" and p: "placeholder_token p" and ne: "p \<noteq> q"
    and inc: "contains t q"
  shows "contains (replace t p v) q"
proof (cases "indexOf t p")
  case None
  with inc show ?thesis by (simp add: replace_def)
next
  case (Some i)
  let ?c = "take i t" and ?d = "drop (i + length p) t"
  from indexOf_split [OF Some] have t: "t = ?c @ p @ ?d" .
  from inc have "sublist q (?c @ p @ ?d)" using t by (simp add: contains_sublist)
  from sublist_survives [OF q p ne this]
  have "sublist q (?c @ getSubstitution p t i v @ ?d)"
    by (metis sublist_append)
  with Some show ?thesis by (simp add: replace_def contains_sublist)
qed

lemma resolve_keeps_token:
  assumes q: "placeholder_token q"
  shows "contains t q \<Longrightarrow> \<forall>(p, v) \<in> set bs. placeholder_token p \<and> p \<noteq> q \<Longrightarrow> contains (resolve t bs) q"
proof (induction bs arbitrary: t)
  case Nil
  then show ?case by (simp add: resolve_Nil)
next
  case (Cons b bs)
  obtain p v where b: "b = (p, v)" by (cases b)
  with Cons.prems have "placeholder_token p" "p \<noteq> q" by auto
  from replace_keeps_token [OF q this Cons.prems(1)] have "contains (replace t p v) q" .
  moreover from Cons.prems have "\<forall>(p, v) \<in> set bs. placeholder_token p \<and> p \<noteq> q" by simp
  ultimately show ?case using Cons.IH b by (simp add: resolve_Cons)
qed

section \<open>Properties of template resolution\<close>

lemma token_keyword: "placeholder_token (js ''[keyword]'')"
  by (simp add: placeholder_token_def js_def)
lemma token_content: "placeholder_token (js ''[CONTENT]'')"
  by (simp add: placeholder_token_def js_def)

lemma review_has_keyword: "contains DEFAULT_PROMPT_Review (js ''[keyword]'')"
  by (simp add: contains_def DEFAULT_PROMPT_Review_def js_def)

text \<open>
  Claim C8. Resolving a template with no binding returns the template unchanged; and a
  placeholder that has no binding stays in the output: for bindings whose placeholders
  are tokens other than \<open>q\<close>, a template that holds the token \<open>q\<close> resolves to a
  string that still holds it. Resolution is a total function: nothing is raised.
\<close>

theorem resolve_unmatched_verbatim:
  "resolve t [] = t \<and>
   (placeholder_token q \<and> contains t q \<and>
    (\<forall>(p, v) \<in> set bindings. placeholder_token p \<and> p \<noteq> q)
    \<longrightarrow> contains (resolve t bindings) q)"
  using resolve_keeps_token [of q t bindings] by (simp add: resolve_Nil)

theorem resolve_unmatched_verbatim_witness:
  "placeholder_token (js ''[keyword]'') \<and> contains DEFAULT_PROMPT_Review (js ''[keyword]'') \<and>
   placeholder_token (js ''[CONTENT]'') \<and> js ''[CONTENT]'' \<noteq> js ''[keyword]'' \<and>
   resolve DEFAULT_PROMPT_Review [] = DEFAULT_PROMPT_Review \<and>
   contains (resolve DEFAULT_PROMPT_Review [(js ''[CONTENT]'', js ''research'')]) (js ''[keyword]'')"
proof -
  have h: "\<forall>(p, v) \<in> set [(js ''[CONTENT]'', js ''research'')]. placeholder_token p \<and> p \<noteq> js ''[keyword]''"
    using token_content by (simp add: js_def)
  from resolve_unmatched_verbatim [of DEFAULT_PROMPT_Review "js ''[keyword]''" "[(js ''[CONTENT]'', js ''research'')]"]
    token_keyword token_content review_has_keyword h
  show ?thesis by (simp add: js_def)
qed

subsection \<open>One binding: the first occurrence\<close>

lemma occurrences_indexOf:
  "p \<noteq> [] \<Longrightarrow>
   occurrences t p =
     (case indexOf t p of None \<Rightarrow> 0 | Some i \<Rightarrow> Suc (occurrences (drop (i + length p) t) p))"
proof (induction t)
  case Nil
  then show ?case by simp
next
  case (Cons c s)
  show ?case
  proof (cases "startsWith (c # s) p")
    case True
    with Cons.prems show ?thesis by simp
  next
    case False
    with Cons show ?thesis by (cases "indexOf s p") simp_all
  qed
qed

lemma replace_first:
  assumes "indexOf t p = Some i"
  shows "replace t p v = take i t @ getSubstitution p t i v @ drop (i + length p) t"
  using assms by (simp add: replace_def)

lemma resolve_single: "resolve t [(p, v)] = replace t p v"
  by (simp add: resolve_def)

lemma first_occurrence_replaced:
  assumes ne: "p \<noteq> []" and n: "occurrences t p = n" and pos: "0 < n"
    and plain: "of_char CHR ''$'' \<notin> set v"
  shows "\<exists>pre post. t = pre @ p @ post \<and> indexOf t p = Some (length pre) \<and>
           occurrences post p = n - 1 \<and> resolve t [(p, v)] = pre @ v @ post"
proof -
  from occurrences_indexOf [OF ne, of t] n pos
  obtain i where i: "indexOf t p = Some i" and rest: "n = Suc (occurrences (drop (i + length p) t) p)"
    by (cases "indexOf t p") auto
  let ?pre = "take i t" and ?post = "drop (i + length p) t"
  from indexOf_SomeD [OF i] have len: "length ?pre = i" by simp
  have "t = ?pre @ p @ ?post" by (rule indexOf_split [OF i])
  moreover have "indexOf t p = Some (length ?pre)" using i len by simp
  moreover have "occurrences ?post p = n - 1" using rest by simp
  moreover have "resolve t [(p, v)] = ?pre @ v @ ?post"
    using replace_first [OF i] by (simp add: resolve_single getSubstitution_plain [OF plain])
  ultimately show ?thesis by blast
qed

text \<open>
  Claim C1, as stated, fails: \<open>replace\<close> with a string pattern replaces the first
  occurrence only. A template with two \<open>[CONTENT]\<close> tokens and the value \<open>x\<close>, which
  holds no token, resolves to a string that still holds one token and holds the value
  once, where the claim expects no token and the value twice.
\<close>

theorem resolve_all_occurrences_counterexample:
  "occurrences (js ''[CONTENT] and [CONTENT]'') (js ''[CONTENT]'') = 2 \<and>
   occurrences (js ''x'') (js ''[CONTENT]'') = 0 \<and>
   resolve (js ''[CONTENT] and [CONTENT]'') [(js ''[CONTENT]'', js ''x'')] = js ''x and [CONTENT]'' \<and>
   occurrences (js ''x and [CONTENT]'') (js ''[CONTENT]'') = 1 \<and>
   occurrences (js ''x and [CONTENT]'') (js ''x'') = 1"
  by (simp add: js_def resolve_def replace_def)

text \<open>
  Claim C1, amended. For a non-empty placeholder and a value without a dollar sign,
  resolving the binding replaces the first (leftmost) occurrence of the placeholder only:
  a template with \<open>n \<ge> 1\<close> occurrences is \<open>pre @ p @ post\<close> with the first occurrence
  at \<open>length pre\<close>, the output is \<open>pre @ v @ post\<close>, and \<open>post\<close> still holds the other
  \<open>n - 1\<close> occurrences.
\<close>

theorem resolve_replaces_first_occurrence:
  assumes "p \<noteq> []" and "occurrences t p = n" and "0 < n" and "of_char CHR ''$'' \<notin> set v"
  shows "\<exists>pre post. t = pre @ p @ post \<and> indexOf t p = Some (length pre) \<and>
           occurrences post p = n - 1 \<and> resolve t [(p, v)] = pre @ v @ post"
  by (rule first_occurrence_replaced [OF assms])

theorem resolve_replaces_first_occurrence_witness:
  "js ''[CONTENT]'' \<noteq> [] \<and>
   occurrences (js ''[CONTENT] and [CONTENT]'') (js ''[CONTENT]'') = 2 \<and>
   of_char CHR ''$'' \<notin> set (js ''x'') \<and>
   (\<exists>pre post. js ''[CONTENT] and [CONTENT]'' = pre @ js ''[CONTENT]'' @ post \<and>
      indexOf (js ''[CONTENT] and [CONTENT]'') (js ''[CONTENT]'') = Some (length pre) \<and>
      occurrences post (js ''[CONTENT]'') = 1 \<and>
      resolve (js ''[CONTENT] and [CONTENT]'') [(js ''[CONTENT]'', js ''x'')] = pre @ js ''x'' @ post)"
proof -
  have ne: "js ''[CONTENT]'' \<noteq> []" by (simp add: js_def)
  have n: "occurrences (js ''[CONTENT] and [CONTENT]'') (js ''[CONTENT]'') = 2" by (simp add: js_def)
  have d: "of_char CHR ''$'' \<notin> set (js ''x'')" by (simp add: js_def)
  from resolve_replaces_first_occurrence [OF ne n _ d]
  have "\<exists>pre post. js ''[CONTENT] and [CONTENT]'' = pre @ js ''[CONTENT]'' @ post \<and>
      indexOf (js ''[CONTENT] and [CONTENT]'') (js ''[CONTENT]'') = Some (length pre) \<and>
      occurrences post (js ''[CONTENT]'') = 1 \<and>
      resolve (js ''[CONTENT] and [CONTENT]'') [(js ''[CONTENT]'', js ''x'')] = pre @ js ''x'' @ post"
    by simp
  with ne n d show ?thesis by blast
qed

subsection \<open>Two bindings: the prompt of the Analysis step\<close>

lemma js_append: "js (a @ b) = js a @ js b" by (simp add: js_def)

lemma DEFAULT_PROMPT_Analysis_parts:
  "DEFAULT_PROMPT_Analysis = prompt_head @ js ''[KEYWORD]'' @ prompt_middle @ js ''[CONTENT]''"
  unfolding DEFAULT_PROMPT_Analysis_def prompt_head_def prompt_middle_def js_append [symmetric]
  by simp

lemma startsWith_append: "startsWith s p \<Longrightarrow> startsWith (s @ t) p"
  by (auto simp: startsWith_prefix)

lemma startsWith_self: "startsWith (p @ t) p"
  by (simp add: startsWith_prefix)

lemma indexOf_self: "indexOf (p @ t) p = Some 0"
proof (cases "p @ t")
  case Nil
  then show ?thesis by simp
next
  case (Cons a list)
  then have "startsWith (a # list) p" by (metis startsWith_self)
  with Cons show ?thesis by simp
qed

lemma startsWith_short: "startsWith (s @ t) p \<Longrightarrow> length p \<le> length s \<Longrightarrow> startsWith s p"
  unfolding startsWith_prefix by (rule prefix_length_prefix [of p "s @ t" s]) auto

lemma indexOf_skip:
  "a \<notin> set xs \<Longrightarrow> indexOf (xs @ s) (a # p) = map_option (\<lambda>i. length xs + i) (indexOf s (a # p))"
proof (induction xs)
  case Nil
  show ?case by (simp add: option.map_ident)
next
  case (Cons x xs)
  then show ?case by (simp add: option.map_comp comp_def)
qed

lemma indexOf_append_Some:
  "indexOf s p = Some i \<Longrightarrow> indexOf (s @ t) p = Some i"
proof (induction s arbitrary: i)
  case Nil
  then show ?case by (cases t) (auto split: if_splits)
next
  case (Cons c s)
  show ?case
  proof (cases "startsWith (c # s) p")
    case True
    with Cons.prems startsWith_append [OF True, of t] show ?thesis by simp
  next
    case False
    with Cons.prems obtain j where j: "indexOf s p = Some j" "i = Suc j" by auto
    from indexOf_SomeD [OF j(1)] have "length p \<le> length s" by simp
    then have "length p \<le> length (c # s)" by simp
    with False startsWith_short [of "c # s" t p] have "\<not> startsWith ((c # s) @ t) p" by blast
    with j Cons.IH [OF j(1)] show ?thesis by simp
  qed
qed


lemma indexOf_append_None:
  assumes "c \<notin> set p" and "p \<noteq> []"
  shows "indexOf k p = None \<Longrightarrow>
         indexOf (k @ c # t) p = map_option (\<lambda>i. length k + Suc i) (indexOf t p)"
proof (induction k)
  case Nil
  have "\<not> startsWith (c # t) p" using assms by (cases p) auto
  then show ?case by (simp add: option.map_ident)
next
  case (Cons x k)
  from Cons.prems have nf: "\<not> startsWith (x # k) p" and none: "indexOf k p = None"
    by (auto split: if_splits)
  have "\<not> startsWith ((x # k) @ c # t) p"
  proof
    assume sw: "startsWith ((x # k) @ c # t) p"
    show False
    proof (cases "length p \<le> length (x # k)")
      case True
      with sw startsWith_short nf show False by blast
    next
      case False
      from sw obtain z where z: "(x # k) @ c # t = p @ z" by (auto simp: startsWith_prefix prefix_def)
      from False have "length (x # k) < length p" by simp
      then have "p ! length (x # k) = (p @ z) ! length (x # k)" by (simp add: nth_append)
      also have "\<dots> = ((x # k) @ c # t) ! length (x # k)" using z by simp
      also have "\<dots> = c" by (metis nth_append_length)
      finally have "c \<in> set p" using \<open>length (x # k) < length p\<close> by (metis nth_mem)
      with assms show False by simp
    qed
  qed
  with Cons.IH [OF none] show ?case by (simp add: option.map_comp comp_def)
qed

lemma head_no_bracket: "of_char CHR ''['' \<notin> set prompt_head"
  by (simp add: prompt_head_def js_def)

lemma middle_no_bracket: "of_char CHR ''['' \<notin> set (tl prompt_middle)"
  by (simp add: prompt_middle_def js_def)

lemma middle_Cons: "prompt_middle = of_char CHR 0x22 # tl prompt_middle"
  by (simp add: prompt_middle_def js_def)

lemma KT_Cons: "js ''[KEYWORD]'' = of_char CHR ''['' # js ''KEYWORD]''" by (simp add: js_def)
lemma CT_Cons: "js ''[CONTENT]'' = of_char CHR ''['' # js ''CONTENT]''" by (simp add: js_def)
lemma CT_length: "length (js ''[CONTENT]'') = 9" by (simp add: js_def)
lemma quote_not_in_CT: "of_char CHR 0x22 \<notin> set (js ''[CONTENT]'')" by (simp add: js_def)

lemma indexOf_found:
  "a \<notin> set xs \<Longrightarrow> indexOf (xs @ (a # p) @ t) (a # p) = Some (length xs)"
  using indexOf_self [of "a # p" t] by (simp add: indexOf_skip)

lemma indexOf_found_end:
  "a \<notin> set xs \<Longrightarrow> indexOf (xs @ a # p) (a # p) = Some (length xs)"
  using indexOf_found [of a xs p "[]"] by simp

lemma keyword_index:
  "indexOf DEFAULT_PROMPT_Analysis (js ''[KEYWORD]'') = Some (length prompt_head)"
  unfolding DEFAULT_PROMPT_Analysis_parts KT_Cons
  by (rule indexOf_found [OF head_no_bracket])

lemma keyword_replaced:
  assumes "of_char CHR ''$'' \<notin> set keyword"
  shows "replace DEFAULT_PROMPT_Analysis (js ''[KEYWORD]'') keyword =
         prompt_head @ keyword @ prompt_middle @ js ''[CONTENT]''"
proof -
  have "replace DEFAULT_PROMPT_Analysis (js ''[KEYWORD]'') keyword =
        take (length prompt_head) DEFAULT_PROMPT_Analysis @ keyword @
        drop (length prompt_head + length (js ''[KEYWORD]'')) DEFAULT_PROMPT_Analysis"
    by (simp add: replace_first [OF keyword_index] getSubstitution_plain [OF assms])
  then show ?thesis by (simp add: DEFAULT_PROMPT_Analysis_parts)
qed

lemma content_index:
  "indexOf (prompt_head @ keyword @ prompt_middle @ js ''[CONTENT]'') (js ''[CONTENT]'') =
     (case indexOf keyword (js ''[CONTENT]'') of
        None \<Rightarrow> Some (length prompt_head + length keyword + length prompt_middle)
      | Some i \<Rightarrow> Some (length prompt_head + i))"
proof -
  have skip: "indexOf (prompt_head @ keyword @ prompt_middle @ js ''[CONTENT]'') (js ''[CONTENT]'') =
      map_option (\<lambda>i. length prompt_head + i)
        (indexOf (keyword @ prompt_middle @ js ''[CONTENT]'') (js ''[CONTENT]''))"
    unfolding CT_Cons by (rule indexOf_skip [OF head_no_bracket])
  show ?thesis
  proof (cases "indexOf keyword (js ''[CONTENT]'')")
    case None
    define m where "m = tl prompt_middle"
    have mid: "prompt_middle = of_char CHR 0x22 # m"
      unfolding m_def by (rule middle_Cons)
    have nb: "of_char CHR ''['' \<notin> set m"
      unfolding m_def by (rule middle_no_bracket)
    have ne: "js ''[CONTENT]'' \<noteq> []" by (simp add: js_def)
    have tail: "indexOf (m @ js ''[CONTENT]'') (js ''[CONTENT]'') = Some (length m)"
      unfolding CT_Cons by (rule indexOf_found_end [OF nb])
    have "indexOf (keyword @ of_char CHR 0x22 # (m @ js ''[CONTENT]'')) (js ''[CONTENT]'') =
          map_option (\<lambda>i. length keyword + Suc i) (indexOf (m @ js ''[CONTENT]'') (js ''[CONTENT]''))"
      by (rule indexOf_append_None [OF quote_not_in_CT ne None])
    then have "indexOf (keyword @ prompt_middle @ js ''[CONTENT]'') (js ''[CONTENT]'') =
          Some (length keyword + length prompt_middle)"
      unfolding mid tail by simp
    with None skip show ?thesis by simp
  next
    case (Some i)
    from indexOf_append_Some [OF Some] skip Some show ?thesis by simp
  qed
qed

lemma initializedPrompt_cases:
  assumes k: "of_char CHR ''$'' \<notin> set keyword" and r: "of_char CHR ''$'' \<notin> set researchContent"
  shows "initializedPrompt keyword researchContent =
     (case indexOf keyword (js ''[CONTENT]'') of
        None \<Rightarrow> prompt_head @ keyword @ prompt_middle @ researchContent
      | Some i \<Rightarrow>
          prompt_head @ take i keyword @ researchContent @ drop (i + 9) keyword @
          prompt_middle @ js ''[CONTENT]'')"
proof (cases "indexOf keyword (js ''[CONTENT]'')")
  case None
  let ?t = "prompt_head @ keyword @ prompt_middle @ js ''[CONTENT]''"
  from content_index [of keyword] None
  have i: "indexOf ?t (js ''[CONTENT]'') = Some (length prompt_head + length keyword + length prompt_middle)"
    by simp
  have "replace ?t (js ''[CONTENT]'') researchContent = prompt_head @ keyword @ prompt_middle @ researchContent"
    by (simp add: replace_first [OF i] getSubstitution_plain [OF r])
  with None show ?thesis by (simp add: initializedPrompt_def keyword_replaced [OF k])
next
  case (Some i)
  let ?t = "prompt_head @ keyword @ prompt_middle @ js ''[CONTENT]''"
  from indexOf_SomeD [OF Some] have le: "i + 9 \<le> length keyword" by (simp add: CT_length)
  from content_index [of keyword] Some
  have i: "indexOf ?t (js ''[CONTENT]'') = Some (length prompt_head + i)" by simp
  have "replace ?t (js ''[CONTENT]'') researchContent =
        prompt_head @ take i keyword @ researchContent @ drop (i + 9) keyword @
          prompt_middle @ js ''[CONTENT]''"
    using le by (simp add: replace_first [OF i] getSubstitution_plain [OF r] CT_length)
  with Some show ?thesis by (simp add: initializedPrompt_def keyword_replaced [OF k])
qed


text \<open>
  Claim C2, as stated, fails: the second \<open>replace\<close> of \<open>initializedPrompt\<close> scans the
  whole output of the first, the inserted keyword included. With the keyword
  \<open>[CONTENT]\<close> and the research content \<open>R\<close>, the token inside the keyword is the
  first one and is resolved to \<open>R\<close>, while the template's own \<open>[CONTENT]\<close> is left in
  the output; the claim expects the keyword as it is and \<open>R\<close> at the end.
\<close>

theorem initializedPrompt_rescans_counterexample:
  "initializedPrompt (js ''[CONTENT]'') (js ''R'') =
     prompt_head @ js ''R'' @ prompt_middle @ js ''[CONTENT]'' \<and>
   initializedPrompt (js ''[CONTENT]'') (js ''R'') \<noteq>
     prompt_head @ js ''[CONTENT]'' @ prompt_middle @ js ''R''"
proof -
  have k: "of_char CHR ''$'' \<notin> set (js ''[CONTENT]'')" by (simp add: js_def)
  have r: "of_char CHR ''$'' \<notin> set (js ''R'')" by (simp add: js_def)
  have i: "indexOf (js ''[CONTENT]'') (js ''[CONTENT]'') = Some 0"
    using indexOf_self [of "js ''[CONTENT]''" "[]"] by simp
  have eq: "initializedPrompt (js ''[CONTENT]'') (js ''R'') =
     prompt_head @ js ''R'' @ prompt_middle @ js ''[CONTENT]''"
    using initializedPrompt_cases [OF k r] i by (simp add: CT_length)
  moreover have "js ''R'' @ prompt_middle @ js ''[CONTENT]'' \<noteq> js ''[CONTENT]'' @ prompt_middle @ js ''R''"
    by (simp add: js_def)
  ultimately show ?thesis by simp
qed

text \<open>
  Claim C2, amended. The bindings are applied one after the other, in the order written,
  each by a scan of the whole current string. For a keyword and a research content
  without dollar signs: the research content, inserted last, is never scanned again (a
  token inside it stays as it is); a keyword without \<open>[CONTENT]\<close> is inserted as it is;
  and a keyword that holds \<open>[CONTENT]\<close> has its first such token replaced by the
  research content, the template's own \<open>[CONTENT]\<close> staying in the output.
\<close>

theorem initializedPrompt_sequential:
  assumes "of_char CHR ''$'' \<notin> set keyword" and "of_char CHR ''$'' \<notin> set researchContent"
  shows "DEFAULT_PROMPT_Analysis = prompt_head @ js ''[KEYWORD]'' @ prompt_middle @ js ''[CONTENT]'' \<and>
     initializedPrompt keyword researchContent =
       (case indexOf keyword (js ''[CONTENT]'') of
          None \<Rightarrow> prompt_head @ keyword @ prompt_middle @ researchContent
        | Some i \<Rightarrow>
            prompt_head @ take i keyword @ researchContent @ drop (i + 9) keyword @
            prompt_middle @ js ''[CONTENT]'')"
  using initializedPrompt_cases [OF assms] DEFAULT_PROMPT_Analysis_parts by simp

theorem initializedPrompt_sequential_witness:
  "of_char CHR ''$'' \<notin> set (js ''seo'') \<and> of_char CHR ''$'' \<notin> set (js ''[KEYWORD] [CONTENT]'') \<and>
   initializedPrompt (js ''seo'') (js ''[KEYWORD] [CONTENT]'') =
     prompt_head @ js ''seo'' @ prompt_middle @ js ''[KEYWORD] [CONTENT]''"
proof -
  have k: "of_char CHR ''$'' \<notin> set (js ''seo'')" by (simp add: js_def)
  have r: "of_char CHR ''$'' \<notin> set (js ''[KEYWORD] [CONTENT]'')" by (simp add: js_def)
  have i: "indexOf (js ''seo'') (js ''[CONTENT]'') = None" by (simp add: js_def)
  from initializedPrompt_sequential [OF k r] i k r show ?thesis by simp
qed

section \<open>Properties of the research formatters\<close>

lemma join_middle:
  "join sep (xs @ [r] @ ys) =
     (if xs = [] then [] else join sep xs @ sep) @ r @ (if ys = [] then [] else sep @ join sep ys)"
proof (induction xs rule: join.induct [of _ sep])
  case (1 s)
  show ?case by (cases ys) simp_all
next
  case (2 s x)
  show ?case by (cases ys) simp_all
next
  case (3 s x y zs)
  then show ?case by simp
qed

lemma review_block_shape:
  "\<exists>body. review_block r = js ''# '' @ title r @ body @ js ''\<newline>\<newline>---\<newline>''"
  by (simp add: review_block_def)

lemma preview_block_shape:
  "\<exists>body. preview_block h r = js ''# '' @ title r @ body @ js ''\<newline>\<newline>---\<newline>''"
  by (simp add: preview_block_def)

lemma three_blocks:
  assumes a: "a = js ''# '' @ ta @ ra" and b: "b = js ''# '' @ tb @ rb" and c: "c = js ''# '' @ tc @ rc"
  shows "join (js ''\<newline>'') [a, b, c] = a @ js ''\<newline>'' @ b @ js ''\<newline>'' @ c \<and>
    2 < length a + 3 \<and> length a + 3 < length a + length b + 4 \<and>
    startsWith (drop 2 (join (js ''\<newline>'') [a, b, c])) ta \<and>
    startsWith (drop (length a + 3) (join (js ''\<newline>'') [a, b, c])) tb \<and>
    startsWith (drop (length a + length b + 4) (join (js ''\<newline>'') [a, b, c])) tc"
proof -
  have l2: "length (js ''# '') = 2" and l1: "length (js ''\<newline>'') = 1" by (simp_all add: js_def)
  have j: "join (js ''\<newline>'') [a, b, c] = a @ js ''\<newline>'' @ b @ js ''\<newline>'' @ c" by simp
  have "drop 2 (a @ js ''\<newline>'' @ b @ js ''\<newline>'' @ c) = ta @ ra @ js ''\<newline>'' @ b @ js ''\<newline>'' @ c"
    unfolding a using l2 by simp
  then have 1: "startsWith (drop 2 (join (js ''\<newline>'') [a, b, c])) ta"
    unfolding j by (simp add: startsWith_self)
  have "drop (length a + 3) (a @ js ''\<newline>'' @ b @ js ''\<newline>'' @ c) = drop 2 (b @ js ''\<newline>'' @ c)"
    using l1 by simp
  also have "\<dots> = tb @ rb @ js ''\<newline>'' @ c" unfolding b using l2 by simp
  finally have 2: "startsWith (drop (length a + 3) (join (js ''\<newline>'') [a, b, c])) tb"
    unfolding j by (simp add: startsWith_self)
  have "drop (length a + length b + 4) (a @ js ''\<newline>'' @ b @ js ''\<newline>'' @ c) = drop 2 c"
    using l1 by simp
  also have "\<dots> = tc @ rc" unfolding c using l2 by simp
  finally have 3: "startsWith (drop (length a + length b + 4) (join (js ''\<newline>'') [a, b, c])) tc"
    unfolding j by (simp add: startsWith_self)
  from j 1 2 3 show ?thesis by simp
qed

lemma review_example:
  "review_block example_result =
     js ''# A\<newline>\<newline>Source: u1\<newline>\<newline>Key Points:\<newline>\<newline>\<newline>Summary:\<newline>\<newline>\<newline>---\<newline>''"
  by (simp add: review_block_def example_result_def titlePoints_def cleanSnippet_def trim_def
      white_space_def title_separator_def sentence_end_def js_def)

lemma review_example_no_fallback:
  "\<not> contains (review_block example_result) (js ''No content available'')"
  unfolding review_example by (simp add: contains_def js_def)

lemma preview_example:
  "contains (preview_block h example_result) (js ''No content available'')"
  by (simp add: preview_block_def markdownContent_def example_result_def contains_def js_def)

lemma markdownContent_cases:
  "(content r = Some c \<and> c \<noteq> [] \<longrightarrow>
      markdownContent h r = (case h of Some f \<Rightarrow> f c | None \<Rightarrow> c)) \<and>
   ((content r = None \<or> content r = Some []) \<and> snippet r \<noteq> [] \<longrightarrow>
      markdownContent h r = snippet r) \<and>
   ((content r = None \<or> content r = Some []) \<and> snippet r = [] \<longrightarrow>
      markdownContent h r = js ''No content available'')"
  by (auto simp: markdownContent_def)

lemma preview_block_has_body: "contains (preview_block h r) (markdownContent h r)"
proof -
  have "\<exists>a b. preview_block h r = a @ markdownContent h r @ b"
    unfolding preview_block_def by (metis append.assoc)
  then show ?thesis by (auto simp: contains_sublist sublist_def)
qed

lemma review_block_ignores_content:
  "review_block (r\<lparr>content := c\<rparr>) = review_block r"
  by (simp add: review_block_def titlePoints_def cleanSnippet_def)

lemma replace_ellipsis_plain:
  "of_char CHR ''.'' \<notin> set s \<Longrightarrow> replace_ellipsis s = s"
  by (induction s rule: replace_ellipsis.induct) auto

lemma split_regex_none:
  "\<forall>c \<in> set s. \<not> sep c \<Longrightarrow> split_regex sep s = [s]"
  by (induction s) auto

lemma cleanSnippet_plain:
  assumes "\<forall>c \<in> set (snippet r). \<not> sentence_end c"
  shows "cleanSnippet r = trim (snippet r)"
proof -
  from assms have "of_char CHR ''.'' \<notin> set (snippet r)"
    by (auto simp: sentence_end_def)
  then have "replace_ellipsis (snippet r) = snippet r" by (rule replace_ellipsis_plain)
  with assms have "split_regex sentence_end (replace_ellipsis (snippet r)) = [snippet r]"
    by (simp add: split_regex_none)
  then show ?thesis by (simp add: cleanSnippet_def)
qed

lemma cleanSnippet_empty: "snippet r = [] \<Longrightarrow> cleanSnippet r = []"
  using cleanSnippet_plain [of r] by (simp add: trim_def)

lemma titlePoints_plain:
  assumes "\<forall>c \<in> set (title r). \<not> title_separator c"
  shows "titlePoints r = (if 10 < length (trim (title r)) then [trim (title r)] else [])"
  using assms by (simp add: titlePoints_def split_regex_none)

text \<open>
  Claim C6, as stated, fails for the formatter of Step3Review.tsx: it never reads
  \<open>content\<close>, builds its summary from the snippet alone and has no fallback text. For a
  result with neither content nor snippet its block is the headings with empty sections,
  and the text \<open>No content available\<close> is not in it.
\<close>

theorem review_block_no_fallback_counterexample:
  "content example_result = None \<and> snippet example_result = [] \<and>
   review_block example_result =
     js ''# A\<newline>\<newline>Source: u1\<newline>\<newline>Key Points:\<newline>\<newline>\<newline>Summary:\<newline>\<newline>\<newline>---\<newline>'' \<and>
   \<not> contains (review_block example_result) (js ''No content available'')"
  using review_example review_example_no_fallback by (simp add: example_result_def)

text \<open>
  Claim C6, amended. In the Step3Review variant that calls \<open>htmlToMarkdown\<close>, the block
  of a result is the heading with the title, the source line with the url, a Summary
  section (the snippet, or \<open>No summary available\<close> for an empty snippet) and a Full
  Content section whose body is: the content run through \<open>htmlToMarkdown\<close> (the content
  itself when the import is not a function) when the content is present and not empty;
  else the snippet when it is not empty; else the literal \<open>No content available\<close>. The
  formatter of Step3Review.tsx does not read \<open>content\<close>: its block is the heading, the
  source line, key points that depend on the title alone (a title without separators
  gives itself, trimmed, when longer than ten code units, and nothing otherwise) and a
  summary that depends on the snippet alone (a snippet without sentence marks gives
  itself, trimmed); for an empty snippet the summary is empty, with no fallback text.
\<close>

theorem preview_block_body:
  "preview_block h r =
     js ''# '' @ title r @ js ''\<newline>\<newline>Source: '' @ url r @
     js ''\<newline>\<newline>## Summary\<newline>'' @
     (if snippet r \<noteq> [] then snippet r else js ''No summary available'') @
     js ''\<newline>\<newline>## Full Content\<newline>'' @ markdownContent h r @
     js ''\<newline>\<newline>---\<newline>'' \<and>
   (content r = Some c \<and> c \<noteq> [] \<longrightarrow>
      markdownContent h r = (case h of Some f \<Rightarrow> f c | None \<Rightarrow> c)) \<and>
   ((content r = None \<or> content r = Some []) \<and> snippet r \<noteq> [] \<longrightarrow>
      markdownContent h r = snippet r) \<and>
   ((content r = None \<or> content r = Some []) \<and> snippet r = [] \<longrightarrow>
      markdownContent h r = js ''No content available'') \<and>
   review_block r =
     js ''# '' @ title r @ js ''\<newline>\<newline>Source: '' @ url r @
     js ''\<newline>\<newline>Key Points:\<newline>'' @
     join (js ''\<newline>'') (map (\<lambda>p. js ''- '' @ p) (titlePoints r)) @
     js ''\<newline>\<newline>Summary:\<newline>'' @ cleanSnippet r @
     js ''\<newline>\<newline>---\<newline>'' \<and>
   (title r' = title r \<longrightarrow> titlePoints r' = titlePoints r) \<and>
   (snippet r' = snippet r \<longrightarrow> cleanSnippet r' = cleanSnippet r) \<and>
   ((\<forall>x \<in> set (title r). \<not> title_separator x) \<longrightarrow>
      titlePoints r = (if 10 < length (trim (title r)) then [trim (title r)] else [])) \<and>
   ((\<forall>x \<in> set (snippet r). \<not> sentence_end x) \<longrightarrow> cleanSnippet r = trim (snippet r)) \<and>
   (snippet r = [] \<longrightarrow> cleanSnippet r = [])"
proof -
  have 1: "preview_block h r =
     js ''# '' @ title r @ js ''\<newline>\<newline>Source: '' @ url r @
     js ''\<newline>\<newline>## Summary\<newline>'' @
     (if snippet r \<noteq> [] then snippet r else js ''No summary available'') @
     js ''\<newline>\<newline>## Full Content\<newline>'' @ markdownContent h r @
     js ''\<newline>\<newline>---\<newline>''"
    by (simp add: preview_block_def)
  have 2: "review_block r =
     js ''# '' @ title r @ js ''\<newline>\<newline>Source: '' @ url r @
     js ''\<newline>\<newline>Key Points:\<newline>'' @
     join (js ''\<newline>'') (map (\<lambda>p. js ''- '' @ p) (titlePoints r)) @
     js ''\<newline>\<newline>Summary:\<newline>'' @ cleanSnippet r @
     js ''\<newline>\<newline>---\<newline>''"
    by (simp add: review_block_def)
  have 3: "title r' = title r \<longrightarrow> titlePoints r' = titlePoints r"
    by (simp add: titlePoints_def)
  have 4: "snippet r' = snippet r \<longrightarrow> cleanSnippet r' = cleanSnippet r"
    by (simp add: cleanSnippet_def)
  from 1 2 3 4 markdownContent_cases [of r c h] titlePoints_plain [of r] cleanSnippet_plain [of r]
    cleanSnippet_empty [of r]
  show ?thesis by blast
qed

theorem preview_block_body_witness:
  "content example_page = Some (js ''<p>body</p>'') \<and> js ''<p>body</p>'' \<noteq> [] \<and>
   markdownContent (Some (drop 3)) example_page = drop 3 (js ''<p>body</p>'') \<and>
   content example_result = None \<and> snippet example_result = [] \<and>
   markdownContent (Some (drop 3)) example_result = js ''No content available'' \<and>
   cleanSnippet example_result = [] \<and>
   content (example_page\<lparr>content := None\<rparr>) = None \<and> snippet (example_page\<lparr>content := None\<rparr>) \<noteq> [] \<and>
   markdownContent (Some (drop 3)) (example_page\<lparr>content := None\<rparr>) = js ''s2'' \<and>
   title (example_page\<lparr>url := js ''u9''\<rparr>) = title example_page \<and>
   titlePoints (example_page\<lparr>url := js ''u9''\<rparr>) = titlePoints example_page \<and>
   snippet (example_page\<lparr>url := js ''u9''\<rparr>) = snippet example_page \<and>
   cleanSnippet (example_page\<lparr>url := js ''u9''\<rparr>) = cleanSnippet example_page \<and>
   \<not> title_separator (of_char CHR ''B'') \<and> titlePoints example_page = [] \<and>
   \<not> sentence_end (of_char CHR ''s'') \<and> \<not> sentence_end (of_char CHR ''2'') \<and>
   cleanSnippet example_page = js ''s2''"
proof -
  have c: "content example_page = Some (js ''<p>body</p>'')" "js ''<p>body</p>'' \<noteq> []"
    by (simp_all add: example_page_def js_def)
  have n: "content example_result = None" "snippet example_result = []"
    by (simp_all add: example_result_def)
  have s: "content (example_page\<lparr>content := None\<rparr>) = None"
    "snippet (example_page\<lparr>content := None\<rparr>) \<noteq> []"
    "snippet (example_page\<lparr>content := None\<rparr>) = js ''s2''"
    by (simp_all add: example_page_def js_def)
  have u: "title (example_page\<lparr>url := js ''u9''\<rparr>) = title example_page"
    "snippet (example_page\<lparr>url := js ''u9''\<rparr>) = snippet example_page"
    by simp_all
  have t: "\<forall>x \<in> set (title example_page). \<not> title_separator x"
    "\<not> title_separator (of_char CHR ''B'')" "trim (title example_page) = js ''B''"
    by (simp_all add: example_page_def js_def title_separator_def trim_def white_space_def)
  have e: "\<forall>x \<in> set (snippet example_page). \<not> sentence_end x"
    "\<not> sentence_end (of_char CHR ''s'')" "\<not> sentence_end (of_char CHR ''2'')"
    "trim (snippet example_page) = js ''s2''"
    by (simp_all add: example_page_def js_def sentence_end_def trim_def white_space_def)
  note pb = preview_block_body [where r = example_page and c = "js ''<p>body</p>''"
      and h = "Some (drop 3)" and r' = "example_page\<lparr>url := js ''u9''\<rparr>"]
  from pb c have 1: "markdownContent (Some (drop 3)) example_page = drop 3 (js ''<p>body</p>'')"
    by simp
  from pb u have 2: "titlePoints (example_page\<lparr>url := js ''u9''\<rparr>) = titlePoints example_page"
    "cleanSnippet (example_page\<lparr>url := js ''u9''\<rparr>) = cleanSnippet example_page"
    by blast+
  from pb t have 3: "titlePoints example_page = []" by (simp add: js_def)
  from pb e have 4: "cleanSnippet example_page = js ''s2''" by simp
  note pr = preview_block_body [where r = example_result and h = "Some (drop 3)"]
  from pr n have 5: "markdownContent (Some (drop 3)) example_result = js ''No content available''"
    "cleanSnippet example_result = []"
    by blast+
  note ps = preview_block_body [where r = "example_page\<lparr>content := None\<rparr>" and h = "Some (drop 3)"]
  from ps s have 6: "markdownContent (Some (drop 3)) (example_page\<lparr>content := None\<rparr>) = js ''s2''"
    by simp
  from c n s(1,2) u t(2) e(2,3) 1 2 3 4 5 6 show ?thesis by simp
qed

text \<open>
  Claim C7. Both formatters emit one block per result in the order of the input: the
  block of a result stands after the whole output for the results before it and before
  the whole output for the results after it, blocks being joined by a newline; every
  block begins with the heading \<open>#\<close> and the title and ends with the horizontal rule
  and a newline. For the results \<open>[A, B, C]\<close> the titles of \<open>A\<close>, \<open>B\<close> and \<open>C\<close>
  stand in the output at the strictly increasing positions \<open>i < j < k\<close> of their
  headings.
\<close>

theorem formatter_preserves_order:
  "review_content (xs @ [r] @ ys) =
     (if xs = [] then [] else review_content xs @ js ''\<newline>'') @ review_block r @
     (if ys = [] then [] else js ''\<newline>'' @ review_content ys) \<and>
   preview_content h (xs @ [r] @ ys) =
     (if xs = [] then [] else preview_content h xs @ js ''\<newline>'') @ preview_block h r @
     (if ys = [] then [] else js ''\<newline>'' @ preview_content h ys) \<and>
   (\<exists>body. review_block r = js ''# '' @ title r @ body @ js ''\<newline>\<newline>---\<newline>'') \<and>
   (\<exists>body. preview_block h r = js ''# '' @ title r @ body @ js ''\<newline>\<newline>---\<newline>'') \<and>
   (let out = review_content [A, B, C];
        i = 2;
        j = length (review_block A) + 3;
        k = length (review_block A) + length (review_block B) + 4
    in i < j \<and> j < k \<and> startsWith (drop i out) (title A) \<and>
       startsWith (drop j out) (title B) \<and> startsWith (drop k out) (title C)) \<and>
   (let out = preview_content h [A, B, C];
        i = 2;
        j = length (preview_block h A) + 3;
        k = length (preview_block h A) + length (preview_block h B) + 4
    in i < j \<and> j < k \<and> startsWith (drop i out) (title A) \<and>
       startsWith (drop j out) (title B) \<and> startsWith (drop k out) (title C))"
proof -
  have 1: "review_content (xs @ [r] @ ys) =
     (if xs = [] then [] else review_content xs @ js ''\<newline>'') @ review_block r @
     (if ys = [] then [] else js ''\<newline>'' @ review_content ys)"
    using join_middle [of "js ''\<newline>''" "map review_block xs" "review_block r" "map review_block ys"]
    by (simp add: review_content_def)
  have 2: "preview_content h (xs @ [r] @ ys) =
     (if xs = [] then [] else preview_content h xs @ js ''\<newline>'') @ preview_block h r @
     (if ys = [] then [] else js ''\<newline>'' @ preview_content h ys)"
    using join_middle [of "js ''\<newline>''" "map (preview_block h) xs" "preview_block h r"
        "map (preview_block h) ys"]
    by (simp add: preview_content_def)
  obtain ra rb rc where r: "review_block A = js ''# '' @ title A @ ra"
    "review_block B = js ''# '' @ title B @ rb" "review_block C = js ''# '' @ title C @ rc"
    using review_block_shape by (metis append.assoc)
  obtain pa pb pc where p: "preview_block h A = js ''# '' @ title A @ pa"
    "preview_block h B = js ''# '' @ title B @ pb" "preview_block h C = js ''# '' @ title C @ pc"
    using preview_block_shape by (metis append.assoc)
  have 3: "let out = review_content [A, B, C];
        i = 2;
        j = length (review_block A) + 3;
        k = length (review_block A) + length (review_block B) + 4
    in i < j \<and> j < k \<and> startsWith (drop i out) (title A) \<and>
       startsWith (drop j out) (title B) \<and> startsWith (drop k out) (title C)"
    using three_blocks [OF r] unfolding Let_def review_content_def by simp
  have 4: "let out = preview_content h [A, B, C];
        i = 2;
        j = length (preview_block h A) + 3;
        k = length (preview_block h A) + length (preview_block h B) + 4
    in i < j \<and> j < k \<and> startsWith (drop i out) (title A) \<and>
       startsWith (drop j out) (title B) \<and> startsWith (drop k out) (title C)"
    using three_blocks [OF p] unfolding Let_def preview_content_def by simp
  from 1 2 3 4 review_block_shape [of r] preview_block_shape [of h r] show ?thesis by blast
qed


section \<open>Properties of the handlers\<close>

lemma placeholder_nonempty: "PLACEHOLDER_RESULT \<noteq> []"
  by (simp add: PLACEHOLDER_RESULT_def js_def)

lemma generateStyleAnalysis_failure:
  "generateStyleAnalysis (Some e) (st, con) =
     (st\<lparr>isGenerating := False\<rparr>, con @ [(js ''Error generating analysis:'', e)])"
  by (simp add: generateStyleAnalysis_def)

lemma generateStyleAnalysis_success:
  "generateStyleAnalysis None (st, con) =
     (st\<lparr>analysisResult := PLACEHOLDER_RESULT, showResultsA := True, isGenerating := False\<rparr>, con)"
  by (simp add: generateStyleAnalysis_def)

text \<open>
  Claim C9. The research content that the Review step hands to the parent depends on the
  results alone: two runs of the handler on the same results, from any two component
  states and consoles, hand over the same string, which is \<open>review_content results\<close>;
  the handler reads no clock and no other state. The same holds for the content that the
  variant with a preview stores, for a fixed \<open>htmlToMarkdown\<close>.
\<close>

theorem research_content_deterministic:
  "map research_of (forwarded (Step3Review_handleProcess record_review results (st1, con1, []))) =
   map research_of (forwarded (Step3Review_handleProcess record_review results (st2, con2, []))) \<and>
   map research_of (forwarded (Step3Review_handleProcess record_review results (st1, con1, []))) =
     (if results = [] then [] else [review_content results]) \<and>
   (results \<noteq> [] \<longrightarrow>
      processedContent (fst (snd (Step3Preview_handleProcess h results (pst1, con1)))) =
      processedContent (fst (snd (Step3Preview_handleProcess h results (pst2, con2)))) \<and>
      processedContent (fst (snd (Step3Preview_handleProcess h results (pst1, con1)))) =
        preview_content h results)"
  by (simp add: Step3Review_handleProcess_def Step3Preview_handleProcess_def record_review_def
      forwarded_def research_of_def Let_def)

theorem research_content_deterministic_witness:
  "[example_result] \<noteq> [] \<and>
   processedContent (fst (snd (Step3Preview_handleProcess None [example_result]
      (Step3Preview_mount [example_result], [])))) =
   processedContent (fst (snd (Step3Preview_handleProcess None [example_result]
      (setPrompt (js ''edited'') (Step3Preview_mount [example_result]), []))))"
  using research_content_deterministic [where results = "[example_result]" and h = None
      and ?pst1.0 = "Step3Preview_mount [example_result]" and ?con1.0 = "[]" and ?con2.0 = "[]"
      and ?pst2.0 = "setPrompt (js ''edited'') (Step3Preview_mount [example_result])"]
  by simp

text \<open>
  Claim C10. When the forward handler of the Analysis step starts with no analysis result
  stored and no generation in flight, and the awaited generation resolves, the handler
  ends with the generated text stored in the state, and \<open>onNext\<close> has received the
  empty string, the analysis result of the render the handler belongs to; the generated
  text is not empty.
\<close>

theorem handleProcess_forwards_stale_result:
  assumes "analysisResult st = []" and "\<not> isGenerating st"
  shows "Step4Analysis_handleProcess None onNext (st, con, w) =
      (let st' = st\<lparr>analysisResult := PLACEHOLDER_RESULT, showResultsA := True,
                      isGenerating := False, isProcessingA := False\<rparr>
       in case onNext [] w of
            Inr w' \<Rightarrow> (st', con, w')
          | Inl error \<Rightarrow> (st', con @ [(js ''Error processing content:'', error)], w)) \<and>
     Step4Analysis_handleProcess None record_analysis (st, con, []) =
      (st\<lparr>analysisResult := PLACEHOLDER_RESULT, showResultsA := True,
          isGenerating := False, isProcessingA := False\<rparr>, con, [[]]) \<and>
     PLACEHOLDER_RESULT \<noteq> []"
  using assms
  by (simp add: Step4Analysis_handleProcess_def generateStyleAnalysis_success record_analysis_def
      placeholder_nonempty Let_def split: sum.splits)

theorem handleProcess_forwards_stale_result_witness:
  "analysisResult (Step4Analysis_mount (js ''kw'') (js ''r'')) = [] \<and>
   \<not> isGenerating (Step4Analysis_mount (js ''kw'') (js ''r'')) \<and>
   Step4Analysis_handleProcess None record_analysis (Step4Analysis_mount (js ''kw'') (js ''r''), [], []) =
     ((Step4Analysis_mount (js ''kw'') (js ''r''))
        \<lparr>analysisResult := PLACEHOLDER_RESULT, showResultsA := True\<rparr>, [], [[]])"
proof -
  have a: "analysisResult (Step4Analysis_mount (js ''kw'') (js ''r'')) = []"
    by (simp add: Step4Analysis_mount_def)
  have g: "\<not> isGenerating (Step4Analysis_mount (js ''kw'') (js ''r''))"
    by (simp add: Step4Analysis_mount_def)
  have "Step4Analysis_handleProcess None record_analysis (Step4Analysis_mount (js ''kw'') (js ''r''), [], []) =
      ((Step4Analysis_mount (js ''kw'') (js ''r''))
         \<lparr>analysisResult := PLACEHOLDER_RESULT, showResultsA := True,
          isGenerating := False, isProcessingA := False\<rparr>, [], [[]])"
    by (rule handleProcess_forwards_stale_result [OF a g, THEN conjunct2, THEN conjunct1])
  moreover have "(Step4Analysis_mount (js ''kw'') (js ''r''))
         \<lparr>analysisResult := PLACEHOLDER_RESULT, showResultsA := True,
          isGenerating := False, isProcessingA := False\<rparr> =
      (Step4Analysis_mount (js ''kw'') (js ''r''))
         \<lparr>analysisResult := PLACEHOLDER_RESULT, showResultsA := True\<rparr>"
    by (simp add: Step4Analysis_mount_def)
  ultimately show ?thesis using a g by simp
qed

section \<open>Properties of the wizard controller\<close>

lemma advance_failed: "fst (advance out w) = MissingPrerequisite \<Longrightarrow> snd (advance out w) = w"
  by (simp add: advance_def split: if_splits)

lemma advance_into_review:
  assumes "fst (advance out w) = Completed" and "active (snd (advance out w)) = Review"
  shows "active w = Search \<and> ctx_searchResults (ctx (snd (advance out w))) \<noteq> []"
  using assms by (cases "active w"; cases out) (auto simp: advance_def split: if_splits)


text \<open>
  Claim C4, for the controller modelled from the specification. An advance from the
  Search step into the Review step with an empty sequence of search results fails with
  MissingPrerequisite; a failed advance returns the wizard as it was, so the active step
  stays and nothing is merged into the context; and an advance that succeeds and ends in
  the Review step started from the Search step and leaves a non-empty sequence of search
  results in the context.
\<close>

theorem advance_into_review_gate:
  "(active w = Search \<longrightarrow> advance (SearchOutput []) w = (MissingPrerequisite, w)) \<and>
   (fst (advance out w) = MissingPrerequisite \<longrightarrow> snd (advance out w) = w) \<and>
   (fst (advance out w) = Completed \<and> active (snd (advance out w)) = Review \<longrightarrow>
      active w = Search \<and> ctx_searchResults (ctx (snd (advance out w))) \<noteq> [])"
proof -
  have 1: "active w = Search \<longrightarrow> advance (SearchOutput []) w = (MissingPrerequisite, w)"
    by (simp add: advance_def)
  have 2: "fst (advance out w) = MissingPrerequisite \<longrightarrow> snd (advance out w) = w"
    by (rule impI) (rule advance_failed)
  have 3: "fst (advance out w) = Completed \<and> active (snd (advance out w)) = Review \<longrightarrow>
      active w = Search \<and> ctx_searchResults (ctx (snd (advance out w))) \<noteq> []"
    by (rule impI) (rule advance_into_review, simp_all)
  show ?thesis by (rule conjI [OF 1 conjI [OF 2 3]])
qed

theorem advance_into_review_gate_witness:
  "active wizard_at_search = Search \<and>
   advance (SearchOutput []) wizard_at_search = (MissingPrerequisite, wizard_at_search) \<and>
   fst (advance (SearchOutput []) wizard_at_search) = MissingPrerequisite \<and>
   snd (advance (SearchOutput []) wizard_at_search) = wizard_at_search \<and>
   fst (advance (SearchOutput [example_result]) wizard_at_search) = Completed \<and>
   active (snd (advance (SearchOutput [example_result]) wizard_at_search)) = Review \<and>
   ctx_searchResults (ctx (snd (advance (SearchOutput [example_result]) wizard_at_search))) \<noteq> []"
proof -
  have a: "active wizard_at_search = Search" by (simp add: wizard_at_search_def)
  have c: "fst (advance (SearchOutput [example_result]) wizard_at_search) = Completed \<and>
    active (snd (advance (SearchOutput [example_result]) wizard_at_search)) = Review"
    by (simp add: advance_def wizard_at_search_def)
  note g = advance_into_review_gate [where w = wizard_at_search and out = "SearchOutput []"]
  note h = advance_into_review_gate [where w = wizard_at_search and out = "SearchOutput [example_result]"]
  have 1: "advance (SearchOutput []) wizard_at_search = (MissingPrerequisite, wizard_at_search)"
    by (rule g [THEN conjunct1, THEN mp, OF a])
  then have 2: "fst (advance (SearchOutput []) wizard_at_search) = MissingPrerequisite" by simp
  have 3: "snd (advance (SearchOutput []) wizard_at_search) = wizard_at_search"
    by (rule g [THEN conjunct2, THEN conjunct1, THEN mp, OF 2])
  have 4: "active wizard_at_search = Search \<and>
      ctx_searchResults (ctx (snd (advance (SearchOutput [example_result]) wizard_at_search))) \<noteq> []"
    by (rule h [THEN conjunct2, THEN conjunct2, THEN mp, OF c])
  from 4 have 5: "ctx_searchResults (ctx (snd (advance (SearchOutput [example_result]) wizard_at_search))) \<noteq> []"
    by (rule conjunct2)
  show ?thesis
    by (rule conjI [OF a conjI [OF 1 conjI [OF 2 conjI [OF 3 conjI [OF c [THEN conjunct1]
          conjI [OF c [THEN conjunct2] 5]]]]]])
qed

section \<open>Properties of the re-displayed Review step\<close>








end
